theory Spec2Isabelle
  imports Main "HOL-Library.Sublist"
begin

section \<open>Request router (apps/backend/src/main.ts)\<close>

text \<open>
  The middleware installed by \<open>bootstrap\<close> with \<open>server.use\<close>:
  \<^verbatim>\<open>
  const apiPrefix = 'api';
  server.use(async (req, res, next) => {
    if (req.url.startsWith(`/${apiPrefix}`)) {
      return next();
    }
    try {
      await handle(req, res);
    } catch (error) {
      next(error);
    }
  });
  \<close>
  A request carries its method and its URL; the response object is opaque and is
  identified by a number. The renderer's \<open>handle\<close> is a parameter: for a request
  and a response it completes, throws synchronously, or returns a promise that rejects.
\<close>

datatype pstate = Pending | Fulfilled | Rejected

record request =
  httpMethod :: string
  url :: string

type_synonym response = nat

datatype 'e handler_outcome = Completes | Throws 'e | Rejects 'e

text \<open>
  What the middleware does to its collaborators, in order: \<open>CallHandle req res\<close> is the
  call \<open>handle(req, res)\<close>; \<open>CallNext None\<close> is \<open>next()\<close>, which lets the API
  dispatch registered behind the middleware continue; \<open>CallNext (Some e)\<close> is
  \<open>next(e)\<close>, which enters the framework's error-handling path.
\<close>

datatype 'e effect = CallHandle request response | CallNext "'e option"

definition apiPrefix :: string where
  "apiPrefix = ''api''"

text \<open>\<open>s.startsWith(p)\<close>: the first \<open>length p\<close> code units of \<open>s\<close> are \<open>p\<close>.\<close>

definition startsWith :: "string \<Rightarrow> string \<Rightarrow> bool" where
  "startsWith s p = (take (length p) s = p)"

text \<open>
  The middleware returns the effects it performed and the state of the promise the
  \<open>async\<close> arrow function returns: every path ends normally, the \<open>catch\<close> included.
\<close>

definition middleware ::
  "(request \<Rightarrow> response \<Rightarrow> 'e handler_outcome) \<Rightarrow> request \<Rightarrow> response \<Rightarrow> 'e effect list \<times> pstate" where
  "middleware handle req res =
     (if startsWith (url req) (''/'' @ apiPrefix) then ([CallNext None], Fulfilled)
      else (case handle req res of
              Completes \<Rightarrow> ([CallHandle req res], Fulfilled)
            | Throws e \<Rightarrow> ([CallHandle req res, CallNext (Some e)], Fulfilled)
            | Rejects e \<Rightarrow> ([CallHandle req res, CallNext (Some e)], Fulfilled)))"

text \<open>A renderer handler that always completes, for concrete runs.\<close>

definition renders :: "request \<Rightarrow> response \<Rightarrow> string handler_outcome" where
  "renders req res = Completes"

text \<open>A renderer handler whose promise rejects with the given error.\<close>

definition fails_with :: "string \<Rightarrow> request \<Rightarrow> response \<Rightarrow> string handler_outcome" where
  "fails_with e req res = Rejects e"

definition get_request :: "string \<Rightarrow> request" where
  "get_request u = \<lparr>httpMethod = ''GET'', url = u\<rparr>"

section \<open>Readiness gate (apps/backend/src/next/next.service.ts)\<close>

text \<open>
  \<open>NextService\<close> has two fields, \<open>server\<close> and \<open>readyPromise\<close>, both \<open>null\<close> at
  construction. Its methods are \<open>async\<close>, so the model is a transition system over the
  JavaScript job queue: a method runs synchronously up to its first \<open>await\<close>, and its
  continuation is a job queued when the awaited promise settles.

  Every invocation of \<open>initializeNext\<close> is an attempt, numbered in invocation order;
  attempt \<open>i\<close> owns the promise \<open>initializeNext\<close> returned and the renderer instance
  \<open>next({...})\<close> created for it. Every invocation of \<open>ensureReady\<close> is a call, numbered
  likewise, and owns the promise \<open>ensureReady\<close> returned.
\<close>

text \<open>
  What the renderer does synchronously inside one attempt: \<open>next({...})\<close> throws, or
  returns a falsy value, or returns an instance whose \<open>prepare()\<close> throws at once, or
  returns an instance whose \<open>prepare()\<close> returns a promise (settled later by the
  renderer).
\<close>

datatype renderer_behaviour = NextThrows | NextFalsy | PrepareThrows | PrepareAsync

record attempt =
  result :: pstate
  awaiting_prepare :: bool
  waiters :: "nat list"

record call =
  awaited :: nat
  outcome :: pstate

text \<open>
  Code outside the service, run synchronously: \<open>ECall rb\<close> calls \<open>ensureReady()\<close>,
  with \<open>rb\<close> what the renderer does should this call start an attempt; \<open>ESettle i ok\<close>
  is the renderer fulfilling (\<open>ok\<close>) or rejecting the promise \<open>prepare()\<close> returned in
  attempt \<open>i\<close>; \<open>EDefer acts\<close> queues a job that runs \<open>acts\<close>, as
  \<open>Promise.resolve().then(...)\<close> does.
\<close>

datatype action = ECall renderer_behaviour | ESettle nat bool | EDefer "action list"

text \<open>
  The jobs of the queue: the continuation of attempt \<open>i\<close> after
  \<open>await this.server.prepare()\<close>, the continuation of call \<open>j\<close> after
  \<open>await this.readyPromise\<close> (each with whether the awaited promise was fulfilled),
  and deferred outside code.
\<close>

datatype job = ResumeInit nat bool | ResumeEnsure nat bool | EnvJob "action list"

record state =
  server :: "nat option"
  readyPromise :: "nat option"
  attempts :: "attempt list"
  calls :: "call list"
  queue :: "job list"

definition init :: state where
  "init = \<lparr>server = None, readyPromise = None, attempts = [], calls = [], queue = []\<rparr>"

text \<open>
  The promise of attempt \<open>i\<close> settles: the continuations of the calls awaiting it are
  queued in the order they started to wait.
\<close>

definition settle_attempt :: "nat \<Rightarrow> bool \<Rightarrow> state \<Rightarrow> state" where
  "settle_attempt i ok s =
     s\<lparr>attempts := (attempts s)[i := (attempts s ! i)
          \<lparr>result := (if ok then Fulfilled else Rejected), waiters := []\<rparr>],
       queue := queue s @ map (\<lambda>j. ResumeEnsure j ok) (waiters (attempts s ! i))\<rparr>"

text \<open>
  The \<open>catch\<close> block of \<open>initializeNext\<close>:
  \<^verbatim>\<open>this.server = null; console.error(...); throw error;\<close>
\<close>

definition init_catch :: "nat \<Rightarrow> state \<Rightarrow> state" where
  "init_catch i s = settle_attempt i False (s\<lparr>server := None\<rparr>)"

text \<open>
  \<open>initializeNext\<close> up to its first suspension:
  \<^verbatim>\<open>
  try {
    this.server = next({...});
    if (this.server) { await this.server.prepare(); console.log(...); }
    else { throw new Error('Failed to initialize Next.js server'); }
  } catch (error) { this.server = null; console.error(...); throw error; }
  \<close>
  A falsy value stored in \<open>server\<close> is overwritten by \<open>null\<close> in the same
  synchronous run, so the field is modelled as an optional instance. \<open>begin_attempt\<close>
  creates the pending promise of the invocation; \<open>suspended\<close> says that the invocation
  is waiting at \<open>await this.server.prepare()\<close>.
\<close>

definition begin_attempt :: "bool \<Rightarrow> state \<Rightarrow> state" where
  "begin_attempt suspended s =
     s\<lparr>attempts := attempts s @
        [\<lparr>result = Pending, awaiting_prepare = suspended, waiters = []\<rparr>]\<rparr>"

definition initializeNext :: "renderer_behaviour \<Rightarrow> state \<Rightarrow> state" where
  "initializeNext rb s =
     (let i = length (attempts s)
      in case rb of
           NextThrows \<Rightarrow> init_catch i (begin_attempt False s)
         | NextFalsy \<Rightarrow> init_catch i ((begin_attempt False s)\<lparr>server := None\<rparr>)
         | PrepareThrows \<Rightarrow> init_catch i ((begin_attempt False s)\<lparr>server := Some i\<rparr>)
         | PrepareAsync \<Rightarrow> (begin_attempt True s)\<lparr>server := Some i\<rparr>)"

text \<open>
  The continuation of \<open>initializeNext\<close> after \<open>await this.server.prepare()\<close>: log and
  return, or run the \<open>catch\<close> block.
\<close>

definition resumeInit :: "nat \<Rightarrow> bool \<Rightarrow> state \<Rightarrow> state" where
  "resumeInit i ok s = (if ok then settle_attempt i True s else init_catch i s)"

text \<open>
  \<open>await this.readyPromise\<close> in call \<open>j\<close>, on the promise of attempt \<open>p\<close>: the call
  waits while the promise is pending; on a settled promise its continuation is queued
  at once.
\<close>

definition await_ready :: "nat \<Rightarrow> state \<Rightarrow> state" where
  "await_ready p s =
     (let j = length (calls s);
          s' = s\<lparr>calls := calls s @ [\<lparr>awaited = p, outcome = Pending\<rparr>]\<rparr>
      in case result (attempts s ! p) of
           Pending \<Rightarrow>
             s'\<lparr>attempts := (attempts s)[p := (attempts s ! p)
                  \<lparr>waiters := waiters (attempts s ! p) @ [j]\<rparr>]\<rparr>
         | Fulfilled \<Rightarrow> s'\<lparr>queue := queue s @ [ResumeEnsure j True]\<rparr>
         | Rejected \<Rightarrow> s'\<lparr>queue := queue s @ [ResumeEnsure j False]\<rparr>)"

text \<open>
  \<open>ensureReady\<close> up to its suspension:
  \<^verbatim>\<open>
  if (!this.readyPromise) { this.readyPromise = this.initializeNext(); }
  try { await this.readyPromise; } catch (error) { this.readyPromise = null; throw error; }
  \<close>
\<close>

definition ensureReady :: "renderer_behaviour \<Rightarrow> state \<Rightarrow> state" where
  "ensureReady rb s =
     (case readyPromise s of
        None \<Rightarrow>
          (let p = length (attempts s)
           in await_ready p ((initializeNext rb s)\<lparr>readyPromise := Some p\<rparr>))
      | Some p \<Rightarrow> await_ready p s)"

text \<open>
  The continuation of \<open>ensureReady\<close> in call \<open>j\<close>: return, or run the \<open>catch\<close> block,
  which clears \<open>readyPromise\<close> whatever it holds and rethrows.
\<close>

definition resumeEnsure :: "nat \<Rightarrow> bool \<Rightarrow> state \<Rightarrow> state" where
  "resumeEnsure j ok s =
     (if ok then s\<lparr>calls := (calls s)[j := (calls s ! j)\<lparr>outcome := Fulfilled\<rparr>]\<rparr>
      else s\<lparr>readyPromise := None,
             calls := (calls s)[j := (calls s ! j)\<lparr>outcome := Rejected\<rparr>]\<rparr>)"

datatype error = Error string

text \<open>
  \<^verbatim>\<open>
  getNextServer() { if (!this.server) throw new Error('Next.js was not initialized yet');
                    return this.server; }
  getRequestHandler() { if (!this.server) throw new Error('Next.js was not initialized yet');
                        return this.server.getRequestHandler(); }
  \<close>
  \<open>RequestHandler i\<close> is the handler of renderer instance \<open>i\<close>.
\<close>

datatype handler = RequestHandler nat

definition getNextServer :: "state \<Rightarrow> error + nat" where
  "getNextServer s =
     (case server s of
        None \<Rightarrow> Inl (Error ''Next.js was not initialized yet'')
      | Some i \<Rightarrow> Inr i)"

definition getRequestHandler :: "state \<Rightarrow> error + handler" where
  "getRequestHandler s =
     (case server s of
        None \<Rightarrow> Inl (Error ''Next.js was not initialized yet'')
      | Some i \<Rightarrow> Inr (RequestHandler i))"

subsection \<open>The job queue\<close>

fun exec_action :: "action \<Rightarrow> state \<Rightarrow> state" where
  "exec_action (ECall rb) s = ensureReady rb s"
| "exec_action (ESettle i ok) s =
     (if i < length (attempts s) \<and> awaiting_prepare (attempts s ! i)
      then s\<lparr>attempts := (attempts s)[i := (attempts s ! i)\<lparr>awaiting_prepare := False\<rparr>],
             queue := queue s @ [ResumeInit i ok]\<rparr>
      else s)"
| "exec_action (EDefer acts) s = s\<lparr>queue := queue s @ [EnvJob acts]\<rparr>"

definition exec :: "action list \<Rightarrow> state \<Rightarrow> state" where
  "exec acts s = fold exec_action acts s"

fun run_job :: "job \<Rightarrow> state \<Rightarrow> state" where
  "run_job (ResumeInit i ok) s = resumeInit i ok s"
| "run_job (ResumeEnsure j ok) s = resumeEnsure j ok s"
| "run_job (EnvJob acts) s = exec acts s"

text \<open>
  The event loop: \<open>Ext acts\<close> is a task from outside (a timer, an I/O callback, the
  start of the program) running \<open>acts\<close>, which starts only when the job queue is empty;
  \<open>Tick\<close> runs the job at the head of the queue to completion.
\<close>

datatype event = Ext "action list" | Tick

fun step :: "event \<Rightarrow> state \<Rightarrow> state option" where
  "step (Ext acts) s = (if queue s = [] then Some (exec acts s) else None)"
| "step Tick s =
     (case queue s of [] \<Rightarrow> None | j # q \<Rightarrow> Some (run_job j (s\<lparr>queue := q\<rparr>)))"

fun run :: "event list \<Rightarrow> state \<Rightarrow> state option" where
  "run [] s = Some s"
| "run (e # es) s = (case step e s of None \<Rightarrow> None | Some s' \<Rightarrow> run es s')"

text \<open>Observations of a state.\<close>

definition invocations :: "state \<Rightarrow> nat" where
  "invocations s = length (attempts s)"

definition results :: "state \<Rightarrow> pstate list" where
  "results s = map result (attempts s)"

definition outcomes :: "state \<Rightarrow> pstate list" where
  "outcomes s = map outcome (calls s)"

definition awaiteds :: "state \<Rightarrow> nat list" where
  "awaiteds s = map awaited (calls s)"

definition in_flight :: "state \<Rightarrow> nat" where
  "in_flight s = length (filter (\<lambda>a. result a = Pending) (attempts s))"

subsection \<open>Scenarios\<close>


text \<open>
  One call on a fresh service whose attempt fails in the way \<open>rb\<close> says (for
  \<open>PrepareAsync\<close>, the promise of \<open>prepare()\<close> rejects), run until the call has
  rejected; and a further call whose attempt, the second, succeeds.
\<close>

definition first_attempt_fails :: "renderer_behaviour \<Rightarrow> event list" where
  "first_attempt_fails rb =
     (if rb = PrepareAsync then [Ext [ECall PrepareAsync], Ext [ESettle 0 False], Tick, Tick]
      else [Ext [ECall rb], Tick])"

definition second_attempt_succeeds :: "event list" where
  "second_attempt_succeeds = [Ext [ECall PrepareAsync], Ext [ESettle 1 True], Tick, Tick]"

text \<open>
  The start of the program: one call, \<open>prepare()\<close> fulfils, the continuations run.
\<close>

definition bootstrap_trace :: "event list" where
  "bootstrap_trace = [Ext [ECall PrepareAsync], Ext [ESettle 0 True], Tick, Tick]"

text \<open>
  A call that reads \<open>readyPromise\<close> after the attempt's promise has rejected and before
  any \<open>catch\<close> block of \<open>ensureReady\<close> has run. In \<open>stale_waiter_trace\<close> call 0 starts
  attempt 0; in the task where \<open>prepare()\<close> rejects a job is deferred, which itself
  defers a call and then calls \<open>ensureReady()\<close> (call 1). The queue then runs: the
  continuation of attempt 0 (rejecting its promise), the deferred job (call 1 awaits the
  rejected promise of attempt 0), the continuation of call 0 (clearing \<open>readyPromise\<close>),
  the deferred call 2 (starting attempt 1), the continuation of call 1 (clearing
  \<open>readyPromise\<close> again). A later task calls \<open>ensureReady()\<close> once more.

  \<open>stale_waiter_trace_sync\<close> is the same with an attempt 0 that fails synchronously:
  \<^verbatim>\<open>
  svc.ensureReady().catch(() => {});
  Promise.resolve().then(() => svc.ensureReady());
  svc.ensureReady().catch(() => {});
  \<close>
  followed, in a later task, by \<open>svc.ensureReady()\<close>.
\<close>

definition stale_waiter_trace :: "event list" where
  "stale_waiter_trace =
     [Ext [ECall PrepareAsync],
      Ext [ESettle 0 False, EDefer [EDefer [ECall PrepareAsync], ECall PrepareAsync]],
      Tick, Tick, Tick, Tick, Tick,
      Ext [ECall PrepareAsync]]"

definition stale_waiter_trace_sync :: "event list" where
  "stale_waiter_trace_sync =
     [Ext [ECall NextThrows, EDefer [ECall PrepareAsync], ECall PrepareAsync],
      Tick, Tick, Tick,
      Ext [ECall PrepareAsync]]"


text \<open>
  Well-formed states of the job queue. A call awaits an attempt that exists, and once it
  has settled its outcome is the result of that attempt. A queued continuation of an
  attempt belongs to a pending attempt whose \<open>prepare()\<close> has settled, and there is
  one at most per attempt; a queued continuation of a call carries the result of the
  attempt the call awaits. The waiters of an attempt are calls that await it. An
  attempt suspended in \<open>prepare()\<close> is pending and has no continuation queued.
  \<open>readyPromise\<close> holds the promise of an attempt that exists.
\<close>

fun init_ids :: "job list \<Rightarrow> nat list" where
  "init_ids [] = []"
| "init_ids (ResumeInit i ok # q) = i # init_ids q"
| "init_ids (ResumeEnsure c ok # q) = init_ids q"
| "init_ids (EnvJob acts # q) = init_ids q"

fun job_ok :: "attempt list \<Rightarrow> call list \<Rightarrow> job \<Rightarrow> bool" where
  "job_ok as cs (ResumeInit i ok) =
     (i < length as \<and> result (as ! i) = Pending \<and> \<not> awaiting_prepare (as ! i))"
| "job_ok as cs (ResumeEnsure c ok) =
     (c < length cs \<and> awaited (cs ! c) < length as \<and>
      result (as ! awaited (cs ! c)) = (if ok then Fulfilled else Rejected))"
| "job_ok as cs (EnvJob acts) = True"

definition calls_ok :: "attempt list \<Rightarrow> call list \<Rightarrow> bool" where
  "calls_ok as cs =
     (\<forall>c < length cs. awaited (cs ! c) < length as \<and>
        (outcome (cs ! c) \<noteq> Pending \<longrightarrow> result (as ! awaited (cs ! c)) = outcome (cs ! c)))"

definition jobs_ok :: "attempt list \<Rightarrow> call list \<Rightarrow> job list \<Rightarrow> bool" where
  "jobs_ok as cs q = (\<forall>j \<in> set q. job_ok as cs j)"

definition waiters_ok :: "attempt list \<Rightarrow> call list \<Rightarrow> bool" where
  "waiters_ok as cs =
     (\<forall>i < length as. \<forall>c \<in> set (waiters (as ! i)). c < length cs \<and> awaited (cs ! c) = i)"

definition awaiting_ok :: "attempt list \<Rightarrow> job list \<Rightarrow> bool" where
  "awaiting_ok as q =
     (\<forall>i < length as. awaiting_prepare (as ! i) \<longrightarrow>
        result (as ! i) = Pending \<and> i \<notin> set (init_ids q))"

fun ready_ok :: "nat option \<Rightarrow> attempt list \<Rightarrow> bool" where
  "ready_ok None as = True"
| "ready_ok (Some p) as = (p < length as)"

definition well_formed :: "state \<Rightarrow> bool" where
  "well_formed s =
     (calls_ok (attempts s) (calls s) \<and>
      jobs_ok (attempts s) (calls s) (queue s) \<and>
      distinct (init_ids (queue s)) \<and>
      waiters_ok (attempts s) (calls s) \<and>
      awaiting_ok (attempts s) (queue s) \<and>
      ready_ok (readyPromise s) (attempts s))"

text \<open>
  The invariant of the handle: when \<open>server\<close> holds instance \<open>i\<close>, attempt \<open>i\<close> has
  been started and its promise has not rejected.
\<close>

definition handle_inv :: "state \<Rightarrow> bool" where
  "handle_inv s =
     (case server s of
        None \<Rightarrow> True
      | Some i \<Rightarrow> i < length (attempts s) \<and> result (attempts s ! i) \<noteq> Rejected)"

section \<open>Properties of the request router\<close>

lemma startsWith_iff_prefix: "startsWith s p \<longleftrightarrow> prefix p s"
  by (metis startsWith_def prefix_def append_eq_conv_conj append_take_drop_id)

lemma middleware_api:
  "prefix ''/api'' (url req) \<Longrightarrow> middleware handle req res = ([CallNext None], Fulfilled)"
  by (simp add: middleware_def startsWith_iff_prefix apiPrefix_def)

lemma middleware_frontend:
  "\<not> prefix ''/api'' (url req) \<Longrightarrow>
   middleware handle req res =
     (case handle req res of
        Completes \<Rightarrow> ([CallHandle req res], Fulfilled)
      | Throws e \<Rightarrow> ([CallHandle req res, CallNext (Some e)], Fulfilled)
      | Rejects e \<Rightarrow> ([CallHandle req res, CallNext (Some e)], Fulfilled))"
  by (simp add: middleware_def startsWith_iff_prefix apiPrefix_def)

text \<open>
  C1: a request is passed to the API dispatch exactly when its URL starts with \<open>/api\<close>.
  When it does, the middleware calls \<open>next()\<close> and nothing else, so the renderer's handler
  is not invoked; when it does not, the middleware first invokes the renderer's handler
  with the request and the response, and never calls \<open>next()\<close> without an error.
\<close>

theorem router_classifies_by_prefix:
  "(prefix ''/api'' (url req) \<longrightarrow> fst (middleware handle req res) = [CallNext None]) \<and>
   (\<not> prefix ''/api'' (url req) \<longrightarrow>
      (\<exists>rest. fst (middleware handle req res) = CallHandle req res # rest \<and>
              CallNext None \<notin> set rest))"
  by (cases "handle req res") (simp_all add: middleware_api middleware_frontend)

theorem router_classifies_by_prefix_witness:
  "prefix ''/api'' (url (get_request ''/api/status'')) \<and>
   fst (middleware renders (get_request ''/api/status'') 0) = [CallNext None] \<and>
   \<not> prefix ''/api'' (url (get_request ''/about'')) \<and>
   (\<exists>rest. fst (middleware renders (get_request ''/about'') 0) =
             CallHandle (get_request ''/about'') 0 # rest \<and> CallNext None \<notin> set rest)"
  using router_classifies_by_prefix [of "get_request ''/api/status''" renders 0]
    router_classifies_by_prefix [of "get_request ''/about''" renders 0]
  by (simp add: get_request_def)

text \<open>
  C2: the claim has \<open>/api-docs\<close>, \<open>/\<close> and \<open>/about\<close> delegated to the renderer. The
  middleware delegates \<open>/\<close> and \<open>/about\<close>, but \<open>'/api-docs'.startsWith('/api')\<close> holds, so
  for \<open>/api-docs\<close> it calls \<open>next()\<close> and the renderer's handler is not invoked.
\<close>

theorem api_docs_passed_to_api:
  "fst (middleware renders (get_request ''/api-docs'') 0) = [CallNext None] \<and>
   fst (middleware renders (get_request ''/'') 0) = [CallHandle (get_request ''/'') 0] \<and>
   fst (middleware renders (get_request ''/about'') 0) = [CallHandle (get_request ''/about'') 0]"
  by (simp add: middleware_def startsWith_def apiPrefix_def get_request_def renders_def)

text \<open>
  C8: the claim has \<open>GET /\<close> handled by the API layer. On \<open>GET /\<close> the middleware invokes
  the renderer's handler and never calls \<open>next()\<close>, so the API dispatch behind it is not
  reached.
\<close>

theorem root_not_api_counterexample:
  "CallNext None \<notin> set (fst (middleware renders (get_request ''/'') 0)) \<and>
   CallHandle (get_request ''/'') 0 \<in> set (fst (middleware renders (get_request ''/'') 0))"
  by (simp add: middleware_def startsWith_def apiPrefix_def get_request_def renders_def)

text \<open>
  C8, as amended: a request for \<open>/\<close> is delegated to the renderer's handler and is never
  passed on to the API layer; the middleware passes a request on to the API layer only
  when its URL starts with \<open>/api\<close>, as \<open>/api\<close> itself does.
\<close>

theorem root_delegated_to_renderer:
  "(url req = ''/'' \<longrightarrow>
      (\<exists>rest. fst (middleware handle req res) = CallHandle req res # rest \<and>
              CallNext None \<notin> set rest)) \<and>
   (CallNext None \<in> set (fst (middleware handle req res)) \<longrightarrow> prefix ''/api'' (url req)) \<and>
   (url req = ''/api'' \<longrightarrow> fst (middleware handle req res) = [CallNext None])"
proof (intro conjI impI)
  assume "url req = ''/''"
  then have "\<not> prefix ''/api'' (url req)" by simp
  then show "\<exists>rest. fst (middleware handle req res) = CallHandle req res # rest \<and>
      CallNext None \<notin> set rest"
    by (cases "handle req res") (simp_all add: middleware_frontend)
next
  assume "CallNext None \<in> set (fst (middleware handle req res))"
  then show "prefix ''/api'' (url req)"
    by (cases "prefix ''/api'' (url req)"; cases "handle req res")
      (simp_all add: middleware_frontend)
next
  assume "url req = ''/api''"
  then show "fst (middleware handle req res) = [CallNext None]"
    by (simp add: middleware_api)
qed

theorem root_delegated_to_renderer_witness:
  "url (get_request ''/'') = ''/'' \<and>
   (\<exists>rest. fst (middleware renders (get_request ''/'') 0) =
             CallHandle (get_request ''/'') 0 # rest \<and> CallNext None \<notin> set rest) \<and>
   CallNext None \<in> set (fst (middleware renders (get_request ''/api'') 0)) \<and>
   prefix ''/api'' (url (get_request ''/api''))"
  using root_delegated_to_renderer [of "get_request ''/''" renders 0]
    root_delegated_to_renderer [of "get_request ''/api''" renders 0]
  by (simp add: get_request_def)

text \<open>
  C9: for a request whose URL does not start with \<open>/api\<close>, when the renderer's handler
  throws or its promise rejects with \<open>e\<close>, the middleware calls \<open>next(e)\<close> after the
  handler, does nothing else, and its own promise is fulfilled.
\<close>

theorem renderer_error_forwarded:
  "\<not> prefix ''/api'' (url req) \<Longrightarrow> handle req res = Throws e \<or> handle req res = Rejects e \<Longrightarrow>
   middleware handle req res = ([CallHandle req res, CallNext (Some e)], Fulfilled)"
  by (auto simp: middleware_frontend)

theorem renderer_error_forwarded_witness:
  "\<not> prefix ''/api'' (url (get_request ''/about'')) \<and>
   fails_with ''boom'' (get_request ''/about'') 0 = Rejects ''boom'' \<and>
   middleware (fails_with ''boom'') (get_request ''/about'') 0 =
     ([CallHandle (get_request ''/about'') 0, CallNext (Some ''boom'')], Fulfilled)"
  using renderer_error_forwarded [of "get_request ''/about''" "fails_with ''boom''" 0 "''boom''"]
  by (simp add: get_request_def fails_with_def)

section \<open>Properties of the readiness gate\<close>

text \<open>
  C10: \<open>getNextServer()\<close> returns the renderer instance exactly when \<open>server\<close> is set and
  otherwise throws \<open>Next.js was not initialized yet\<close>; it fails on the same states and
  with the same error as \<open>getRequestHandler()\<close>.
\<close>

theorem getNextServer_contract:
  "(getNextServer s = Inr i \<longleftrightarrow> server s = Some i) \<and>
   (getNextServer s = Inl e \<longleftrightarrow> server s = None \<and> e = Error ''Next.js was not initialized yet'') \<and>
   (getNextServer s = Inl e \<longleftrightarrow> getRequestHandler s = Inl e) \<and>
   (getNextServer s = Inr i \<longleftrightarrow> getRequestHandler s = Inr (RequestHandler i))"
  by (auto simp: getNextServer_def getRequestHandler_def split: option.splits)

theorem getNextServer_contract_witness:
  "getNextServer (exec [ECall PrepareAsync] init) = Inr 0 \<and>
   getRequestHandler (exec [ECall PrepareAsync] init) = Inr (RequestHandler 0) \<and>
   getNextServer init = Inl (Error ''Next.js was not initialized yet'') \<and>
   getRequestHandler init = Inl (Error ''Next.js was not initialized yet'')"
proof -
  have set: "server (exec [ECall PrepareAsync] init) = Some 0"
    by (simp add: init_def exec_def ensureReady_def initializeNext_def begin_attempt_def
        await_ready_def)
  have unset: "server init = None"
    by (simp add: init_def)
  from set getNextServer_contract [of "exec [ECall PrepareAsync] init" 0]
  have "getNextServer (exec [ECall PrepareAsync] init) = Inr 0"
    and "getRequestHandler (exec [ECall PrepareAsync] init) = Inr (RequestHandler 0)"
    by blast+
  moreover from unset
    getNextServer_contract [of init _ "Error ''Next.js was not initialized yet''"]
  have "getNextServer init = Inl (Error ''Next.js was not initialized yet'')"
    and "getRequestHandler init = Inl (Error ''Next.js was not initialized yet'')"
    by blast+
  ultimately show ?thesis by blast
qed

subsection \<open>Runs of the job queue\<close>

lemmas gate_defs = init_def exec_def ensureReady_def initializeNext_def begin_attempt_def
  await_ready_def resumeInit_def resumeEnsure_def init_catch_def settle_attempt_def

lemma run_append:
  "run (es @ fs) s = (case run es s of None \<Rightarrow> None | Some s' \<Rightarrow> run fs s')"
  by (induction es arbitrary: s) (simp_all split: option.splits)















subsection \<open>Well-formed states\<close>















lemma well_formed_readyPromise_clear:
  "well_formed s \<Longrightarrow> well_formed (s\<lparr>readyPromise := None\<rparr>)"
  by (simp add: well_formed_def)




























lemma length_attempts_await_ready: "length (attempts (await_ready p s)) = length (attempts s)"
  by (cases "result (attempts s ! p)") (simp_all add: await_ready_def Let_def)

lemma length_attempts_initializeNext:
  "length (attempts (initializeNext rb s)) = Suc (length (attempts s))"
  by (cases rb)
    (simp_all add: initializeNext_def begin_attempt_def init_catch_def settle_attempt_def Let_def)


















subsection \<open>Single flight\<close>





subsection \<open>Retry after failure\<close>

lemma first_failure:
  "run (first_attempt_fails rb) init =
     Some \<lparr>server = None, readyPromise = None,
       attempts = [\<lparr>result = Rejected, awaiting_prepare = False, waiters = []\<rparr>],
       calls = [\<lparr>awaited = 0, outcome = Rejected\<rparr>], queue = []\<rparr>"
  by (cases rb) (simp_all add: first_attempt_fails_def gate_defs)

lemma second_success:
  "run second_attempt_succeeds \<lparr>server = None, readyPromise = None,
       attempts = [\<lparr>result = Rejected, awaiting_prepare = False, waiters = []\<rparr>],
       calls = [\<lparr>awaited = 0, outcome = Rejected\<rparr>], queue = []\<rparr> =
     Some \<lparr>server = Some 1, readyPromise = Some 1,
       attempts = [\<lparr>result = Rejected, awaiting_prepare = False, waiters = []\<rparr>,
                   \<lparr>result = Fulfilled, awaiting_prepare = False, waiters = []\<rparr>],
       calls = [\<lparr>awaited = 0, outcome = Rejected\<rparr>, \<lparr>awaited = 1, outcome = Fulfilled\<rparr>],
       queue = []\<rparr>"
  by (simp add: second_attempt_succeeds_def gate_defs)

text \<open>
  C4: the \<open>catch\<close> block of \<open>ensureReady\<close> clears \<open>readyPromise\<close>, and the next call
  then invokes \<open>initializeNext\<close> again. With a renderer whose first attempt fails, in any
  of the four ways, and whose second attempt succeeds, the first call rejects, leaving
  \<open>readyPromise\<close> and \<open>server\<close> cleared, and a later second call awaits the new attempt
  1 and is fulfilled.
\<close>

theorem failed_attempt_is_retried:
  "readyPromise (resumeEnsure j False s) = None \<and>
   invocations (ensureReady rb (resumeEnsure j False s)) = Suc (invocations s) \<and>
   (\<exists>s1. run (first_attempt_fails rb0) init = Some s1 \<and>
      outcomes s1 = [Rejected] \<and> readyPromise s1 = None \<and> server s1 = None \<and>
      (\<exists>s2. run second_attempt_succeeds s1 = Some s2 \<and>
         outcomes s2 = [Rejected, Fulfilled] \<and> awaiteds s2 = [0, 1] \<and>
         results s2 = [Rejected, Fulfilled] \<and> readyPromise s2 = Some 1))"
proof (intro conjI)
  show "readyPromise (resumeEnsure j False s) = None"
    by (simp add: resumeEnsure_def)
  show "invocations (ensureReady rb (resumeEnsure j False s)) = Suc (invocations s)"
    by (simp add: invocations_def ensureReady_def resumeEnsure_def Let_def
        length_attempts_await_ready length_attempts_initializeNext)
  show "\<exists>s1. run (first_attempt_fails rb0) init = Some s1 \<and>
      outcomes s1 = [Rejected] \<and> readyPromise s1 = None \<and> server s1 = None \<and>
      (\<exists>s2. run second_attempt_succeeds s1 = Some s2 \<and>
         outcomes s2 = [Rejected, Fulfilled] \<and> awaiteds s2 = [0, 1] \<and>
         results s2 = [Rejected, Fulfilled] \<and> readyPromise s2 = Some 1)"
    by (simp add: first_failure second_success outcomes_def awaiteds_def results_def)
qed

theorem failed_attempt_is_retried_witness:
  "map_option outcomes (run (first_attempt_fails PrepareAsync @ second_attempt_succeeds) init) =
     Some [Rejected, Fulfilled] \<and>
   map_option awaiteds (run (first_attempt_fails PrepareAsync @ second_attempt_succeeds) init) =
     Some [0, 1]"
proof -
  from failed_attempt_is_retried [of 0 init PrepareAsync PrepareAsync]
  obtain s1 s2 where "run (first_attempt_fails PrepareAsync) init = Some s1"
    and "run second_attempt_succeeds s1 = Some s2"
    and "outcomes s2 = [Rejected, Fulfilled]" and "awaiteds s2 = [0, 1]"
    by blast
  then show ?thesis by (simp add: run_append)
qed

subsection \<open>Overlapping attempts\<close>

text \<open>
  C5: the claim has at most one attempt in flight in every interleaving. A call that
  read the rejected promise before the first cleanup runs its own \<open>catch\<close> block after a
  new attempt has been recorded, and clears it; the next call starts another attempt
  while that one is still pending. Both traces end with attempts 1 and 2 pending.
\<close>

theorem two_preparations_in_flight:
  "map_option results (run stale_waiter_trace init) = Some [Rejected, Pending, Pending] \<and>
   map_option in_flight (run stale_waiter_trace init) = Some 2 \<and>
   map_option results (run stale_waiter_trace_sync init) = Some [Rejected, Pending, Pending] \<and>
   map_option in_flight (run stale_waiter_trace_sync init) = Some 2"
  by (simp add: stale_waiter_trace_def stale_waiter_trace_sync_def results_def in_flight_def
      gate_defs)

subsection \<open>The handle\<close>

lemma handle_inv_iff:
  "handle_inv s \<longleftrightarrow>
     (\<forall>i. server s = Some i \<longrightarrow> i < length (attempts s) \<and> result (attempts s ! i) \<noteq> Rejected)"
  by (simp add: handle_inv_def split: option.splits)

lemma handle_inv_init: "handle_inv init"
  by (simp add: handle_inv_iff init_def)

lemma handle_inv_unset: "server s = None \<Longrightarrow> handle_inv s"
  by (simp add: handle_inv_iff)

lemma server_init_catch: "server (init_catch i s) = None"
  by (simp add: init_catch_def settle_attempt_def)

lemma result_update_kept:
  "k < length as \<Longrightarrow> result (as ! k) \<noteq> Rejected \<Longrightarrow> result a \<noteq> Rejected \<or> result a = result (as ! i) \<Longrightarrow>
   result (as[i := a] ! k) \<noteq> Rejected"
  by (cases "i = k") auto

lemma handle_inv_settle_ok: "handle_inv s \<Longrightarrow> handle_inv (settle_attempt i True s)"
  by (simp add: handle_inv_iff settle_attempt_def result_update_kept)

lemma handle_inv_resumeInit: "handle_inv s \<Longrightarrow> handle_inv (resumeInit i ok s)"
  by (simp add: resumeInit_def handle_inv_settle_ok handle_inv_unset server_init_catch)

lemma handle_inv_resumeEnsure: "handle_inv s \<Longrightarrow> handle_inv (resumeEnsure j ok s)"
  by (simp add: resumeEnsure_def handle_inv_iff)

lemma handle_inv_await_ready: "handle_inv s \<Longrightarrow> handle_inv (await_ready p s)"
  by (cases "result (attempts s ! p)")
    (simp_all add: handle_inv_iff await_ready_def Let_def result_update_kept)

lemma handle_inv_initializeNext: "handle_inv (initializeNext rb s)"
proof (cases rb)
  case PrepareAsync
  then show ?thesis by (simp add: initializeNext_def begin_attempt_def handle_inv_iff Let_def)
qed (simp_all add: initializeNext_def handle_inv_unset server_init_catch Let_def)

lemma handle_inv_readyPromise_update:
  "handle_inv s \<Longrightarrow> handle_inv (s\<lparr>readyPromise := r\<rparr>)"
  by (simp add: handle_inv_iff)

lemma handle_inv_ensureReady: "handle_inv s \<Longrightarrow> handle_inv (ensureReady rb s)"
  by (simp add: ensureReady_def handle_inv_await_ready handle_inv_initializeNext
      handle_inv_readyPromise_update Let_def split: option.splits)

lemma handle_inv_exec_action: "handle_inv s \<Longrightarrow> handle_inv (exec_action a s)"
proof (cases a)
  case (ECall rb)
  assume "handle_inv s"
  with ECall show ?thesis by (simp add: handle_inv_ensureReady)
next
  case (ESettle i ok)
  assume "handle_inv s"
  with ESettle show ?thesis
    by (simp add: handle_inv_iff result_update_kept)
next
  case (EDefer acts)
  assume "handle_inv s"
  with EDefer show ?thesis by (simp add: handle_inv_iff)
qed

lemma handle_inv_exec: "handle_inv s \<Longrightarrow> handle_inv (exec acts s)"
  unfolding exec_def
  by (induction acts arbitrary: s) (simp_all add: handle_inv_exec_action)

lemma handle_inv_queue_update: "handle_inv s \<Longrightarrow> handle_inv (s\<lparr>queue := q\<rparr>)"
  by (simp add: handle_inv_iff)

lemma handle_inv_run_job: "handle_inv s \<Longrightarrow> handle_inv (run_job j s)"
  by (cases j) (simp_all add: handle_inv_resumeInit handle_inv_resumeEnsure handle_inv_exec)

lemma handle_inv_step: "handle_inv s \<Longrightarrow> step e s = Some s' \<Longrightarrow> handle_inv s'"
  by (cases e)
    (auto simp: handle_inv_exec handle_inv_run_job handle_inv_queue_update
      split: if_splits list.splits)

lemma handle_inv_run: "handle_inv s \<Longrightarrow> run t s = Some s' \<Longrightarrow> handle_inv s'"
proof (induction t arbitrary: s)
  case Nil
  then show ?case by simp
next
  case (Cons e t)
  then show ?case
    by (auto split: option.splits dest: handle_inv_step)
qed

lemma handle_inv_reachable: "run t init = Some s \<Longrightarrow> handle_inv s"
  using handle_inv_run [OF handle_inv_init] .

text \<open>
  C6: the claim has \<open>getRequestHandler()\<close> fail while the first attempt is in flight.
  \<open>initializeNext\<close> stores the instance in \<open>server\<close> before it awaits \<open>prepare()\<close>, so
  after one call, with attempt 0 pending, \<open>getRequestHandler()\<close> returns the handler of
  instance 0.
\<close>

theorem handler_returned_in_flight_counterexample:
  "map_option getRequestHandler (run [Ext [ECall PrepareAsync]] init) =
     Some (Inr (RequestHandler 0)) \<and>
   map_option results (run [Ext [ECall PrepareAsync]] init) = Some [Pending]"
  by (simp add: getRequestHandler_def results_def gate_defs)

text \<open>
  C6, as amended: at every reachable point where no attempt is in flight and none has
  succeeded (before the first call, and after failed attempts), \<open>getRequestHandler()\<close>
  fails with \<open>Next.js was not initialized yet\<close>. At every reachable point, a handler it
  returns is that of the instance of an attempt that has been started and has not
  failed. In the state directly after a call of \<open>ensureReady()\<close> has started an attempt
  whose instance was created and whose \<open>prepare()\<close> is pending, it returns the handler of
  that instance. After the start of the program (one call, \<open>prepare()\<close> fulfils), where
  \<open>ensureReady()\<close> has completed successfully, it returns the handler of the prepared
  instance.
\<close>

theorem getRequestHandler_uninitialized:
  "(run t init = Some s \<and> Pending \<notin> set (results s) \<and> Fulfilled \<notin> set (results s) \<longrightarrow>
      getRequestHandler s = Inl (Error ''Next.js was not initialized yet'')) \<and>
   (run t' init = Some s1 \<and> getRequestHandler s1 = Inr (RequestHandler i) \<longrightarrow>
      i < invocations s1 \<and> results s1 ! i \<noteq> Rejected) \<and>
   (readyPromise s' = None \<longrightarrow>
      getRequestHandler (ensureReady PrepareAsync s') = Inr (RequestHandler (invocations s'))) \<and>
   map_option getRequestHandler (run bootstrap_trace init) = Some (Inr (RequestHandler 0)) \<and>
   map_option outcomes (run bootstrap_trace init) = Some [Fulfilled]"
proof (intro conjI impI)
  assume a: "run t init = Some s \<and> Pending \<notin> set (results s) \<and> Fulfilled \<notin> set (results s)"
  have "server s = None"
  proof (cases "server s")
    case None
    then show ?thesis .
  next
    case (Some i)
    with a handle_inv_reachable [of t s]
    have i: "i < length (attempts s)" and nr: "result (attempts s ! i) \<noteq> Rejected"
      by (simp_all add: handle_inv_iff)
    from i have "result (attempts s ! i) \<in> set (results s)"
      by (simp add: results_def)
    with a nr show ?thesis
      by (cases "result (attempts s ! i)") auto
  qed
  then show "getRequestHandler s = Inl (Error ''Next.js was not initialized yet'')"
    by (simp add: getRequestHandler_def)
next
  assume b: "run t' init = Some s1 \<and> getRequestHandler s1 = Inr (RequestHandler i)"
  then have "server s1 = Some i"
    by (cases "server s1") (simp_all add: getRequestHandler_def)
  with b handle_inv_reachable [of t' s1]
  show "i < invocations s1" and "results s1 ! i \<noteq> Rejected"
    by (simp_all add: handle_inv_iff invocations_def results_def)
next
  assume "readyPromise s' = None"
  then show "getRequestHandler (ensureReady PrepareAsync s') = Inr (RequestHandler (invocations s'))"
    by (simp add: getRequestHandler_def invocations_def ensureReady_def initializeNext_def
        begin_attempt_def await_ready_def Let_def)
next
  show "map_option getRequestHandler (run bootstrap_trace init) = Some (Inr (RequestHandler 0))"
    by (simp add: bootstrap_trace_def getRequestHandler_def gate_defs)
  show "map_option outcomes (run bootstrap_trace init) = Some [Fulfilled]"
    by (simp add: bootstrap_trace_def outcomes_def gate_defs)
qed

theorem getRequestHandler_uninitialized_witness:
  "run (first_attempt_fails PrepareThrows) init =
     Some \<lparr>server = None, readyPromise = None,
       attempts = [\<lparr>result = Rejected, awaiting_prepare = False, waiters = []\<rparr>],
       calls = [\<lparr>awaited = 0, outcome = Rejected\<rparr>], queue = []\<rparr> \<and>
   getRequestHandler \<lparr>server = None, readyPromise = None,
       attempts = [\<lparr>result = Rejected, awaiting_prepare = False, waiters = []\<rparr>],
       calls = [\<lparr>awaited = 0, outcome = Rejected\<rparr>], queue = []\<rparr> =
     Inl (Error ''Next.js was not initialized yet'') \<and>
   run [Ext [ECall PrepareAsync]] init =
     Some \<lparr>server = Some 0, readyPromise = Some 0,
       attempts = [\<lparr>result = Pending, awaiting_prepare = True, waiters = [0]\<rparr>],
       calls = [\<lparr>awaited = 0, outcome = Pending\<rparr>], queue = []\<rparr> \<and>
   getRequestHandler \<lparr>server = Some 0, readyPromise = Some 0,
       attempts = [\<lparr>result = Pending, awaiting_prepare = True, waiters = [0]\<rparr>],
       calls = [\<lparr>awaited = 0, outcome = Pending\<rparr>], queue = []\<rparr> =
     Inr (RequestHandler 0) \<and>
   results \<lparr>server = Some 0, readyPromise = Some 0,
       attempts = [\<lparr>result = Pending, awaiting_prepare = True, waiters = [0]\<rparr>],
       calls = [\<lparr>awaited = 0, outcome = Pending\<rparr>], queue = []\<rparr> ! 0 \<noteq> Rejected \<and>
   readyPromise init = None \<and>
   getRequestHandler (ensureReady PrepareAsync init) = Inr (RequestHandler 0)"
proof -
  let ?s = "\<lparr>server = None, readyPromise = None,
       attempts = [\<lparr>result = Rejected, awaiting_prepare = False, waiters = []\<rparr>],
       calls = [\<lparr>awaited = 0, outcome = Rejected\<rparr>], queue = []\<rparr>"
  let ?p = "\<lparr>server = Some 0, readyPromise = Some 0,
       attempts = [\<lparr>result = Pending, awaiting_prepare = True, waiters = [0]\<rparr>],
       calls = [\<lparr>awaited = 0, outcome = Pending\<rparr>], queue = []\<rparr>"
  have r: "run (first_attempt_fails PrepareThrows) init = Some ?s"
    by (rule first_failure)
  have rp: "run [Ext [ECall PrepareAsync]] init = Some ?p"
    by (simp add: gate_defs)
  have hp: "getRequestHandler ?p = Inr (RequestHandler 0)"
    by (simp add: getRequestHandler_def)
  have idle: "readyPromise init = None" and fresh: "invocations init = 0"
    by (simp_all add: init_def invocations_def)
  have settled: "Pending \<notin> set (results ?s)" "Fulfilled \<notin> set (results ?s)"
    by (simp_all add: results_def)
  note inst = getRequestHandler_uninitialized
    [where t = "first_attempt_fails PrepareThrows" and s = ?s
       and t' = "[Ext [ECall PrepareAsync]]" and ?s1.0 = ?p and i = 0 and s' = init]
  from inst r settled
  have "getRequestHandler ?s = Inl (Error ''Next.js was not initialized yet'')"
    by blast
  moreover from inst rp hp
  have "results ?p ! 0 \<noteq> Rejected"
    by blast
  moreover from inst idle
  have "getRequestHandler (ensureReady PrepareAsync init) = Inr (RequestHandler (invocations init))"
    by blast
  ultimately show ?thesis using r rp hp idle fresh by simp
qed

text \<open>
  C7: the claim has \<open>server\<close> absent until an attempt has succeeded. After one call,
  with attempt 0 pending and no call completed, \<open>server\<close> holds instance 0.
\<close>

theorem handle_set_in_flight_counterexample:
  "map_option server (run [Ext [ECall PrepareAsync]] init) = Some (Some 0) \<and>
   map_option results (run [Ext [ECall PrepareAsync]] init) = Some [Pending] \<and>
   map_option outcomes (run [Ext [ECall PrepareAsync]] init) = Some [Pending]"
  by (simp add: results_def outcomes_def gate_defs)

text \<open>
  C7, as amended: \<open>server\<close> is absent until an attempt has been started; at every
  reachable point, when it is set it holds the instance of an attempt that has been
  started and whose promise has not rejected; and an attempt that fails, before or after
  suspending, leaves \<open>server\<close> absent at the moment its promise rejects.
\<close>

theorem handle_never_of_failed_attempt:
  "(run t init = Some s \<longrightarrow>
      (invocations s = 0 \<longrightarrow> server s = None) \<and>
      (\<forall>i. server s = Some i \<longrightarrow> i < invocations s \<and> results s ! i \<noteq> Rejected)) \<and>
   server (resumeInit k False s') = None \<and>
   (rb \<noteq> PrepareAsync \<longrightarrow> server (initializeNext rb s') = None)"
proof (intro conjI impI allI)
  assume r: "run t init = Some s"
  note inv = handle_inv_reachable [OF r]
  show "server s = None" if "invocations s = 0"
    using that inv by (cases "server s") (simp_all add: handle_inv_iff invocations_def)
  show "i < invocations s" if "server s = Some i" for i
    using that inv by (simp add: handle_inv_iff invocations_def)
  show "results s ! i \<noteq> Rejected" if "server s = Some i" for i
    using that inv by (simp add: handle_inv_iff results_def)
next
  show "server (resumeInit k False s') = None"
    by (simp add: resumeInit_def server_init_catch)
next
  assume "rb \<noteq> PrepareAsync"
  then show "server (initializeNext rb s') = None"
    by (cases rb) (simp_all add: initializeNext_def server_init_catch Let_def)
qed

theorem handle_never_of_failed_attempt_witness:
  "run [Ext [ECall PrepareAsync]] init =
     Some \<lparr>server = Some 0, readyPromise = Some 0,
       attempts = [\<lparr>result = Pending, awaiting_prepare = True, waiters = [0]\<rparr>],
       calls = [\<lparr>awaited = 0, outcome = Pending\<rparr>], queue = []\<rparr> \<and>
   results \<lparr>server = Some 0, readyPromise = Some 0,
       attempts = [\<lparr>result = Pending, awaiting_prepare = True, waiters = [0]\<rparr>],
       calls = [\<lparr>awaited = 0, outcome = Pending\<rparr>], queue = []\<rparr> ! 0 \<noteq> Rejected \<and>
   run [] init = Some init \<and> invocations init = 0 \<and> server init = None \<and>
   NextFalsy \<noteq> PrepareAsync \<and> server (initializeNext NextFalsy init) = None"
proof -
  let ?s = "\<lparr>server = Some 0, readyPromise = Some 0,
       attempts = [\<lparr>result = Pending, awaiting_prepare = True, waiters = [0]\<rparr>],
       calls = [\<lparr>awaited = 0, outcome = Pending\<rparr>], queue = []\<rparr>"
  have r: "run [Ext [ECall PrepareAsync]] init = Some ?s"
    by (simp add: gate_defs)
  have sv: "server ?s = Some 0"
    by simp
  from r sv handle_never_of_failed_attempt [of "[Ext [ECall PrepareAsync]]" ?s 0 init NextFalsy]
  have "results ?s ! 0 \<noteq> Rejected" and "server (initializeNext NextFalsy init) = None"
    by blast+
  moreover have r0: "run [] init = Some init" and i0: "invocations init = 0"
    by (simp_all add: invocations_def init_def)
  moreover from r0 i0 handle_never_of_failed_attempt [of "[]" init 0 init NextFalsy]
  have "server init = None"
    by blast
  ultimately show ?thesis using r by simp
qed

end
